theory Spec2Isabelle
  imports
    Complex_Main
    "HOL-Library.Char_ord"
    "HOL-Library.List_Lexorder"
    "HOL-Library.Multiset"
begin

section \<open>Strings and numbers of the host language\<close>

text \<open>
  The program is TypeScript. A string is modelled as a \<^typ>\<open>string\<close>: the list of its code
  units, restricted to the ASCII range, where \<^verbatim>\<open>toLowerCase\<close> maps exactly \<^verbatim>\<open>A-Z\<close> to
  \<^verbatim>\<open>a-z\<close> and the regular-expression classes \<^verbatim>\<open>\d\<close>, \<^verbatim>\<open>\s\<close> and \<^verbatim>\<open>[a-zA-Z]\<close> are the sets
  written below. The relational operators on strings compare code units lexicographically,
  a proper prefix being smaller: this is the lexicographic order on lists over the order of
  characters by code.
\<close>

definition isDigit :: "char \<Rightarrow> bool" where
  "isDigit c = (CHR ''0'' \<le> c \<and> c \<le> CHR ''9'')"

definition isUpper :: "char \<Rightarrow> bool" where
  "isUpper c = (CHR ''A'' \<le> c \<and> c \<le> CHR ''Z'')"

definition isLetter :: "char \<Rightarrow> bool" where
  "isLetter c = ((CHR ''a'' \<le> c \<and> c \<le> CHR ''z'') \<or> isUpper c)"

definition isSpace :: "char \<Rightarrow> bool" where
  "isSpace c = (c \<in> {CHR '' '', CHR 0x09, CHR 0x0A, CHR 0x0B, CHR 0x0C, CHR 0x0D})"

definition lowerChar :: "char \<Rightarrow> char" where
  "lowerChar c =
     (case map_of (zip ''ABCDEFGHIJKLMNOPQRSTUVWXYZ'' ''abcdefghijklmnopqrstuvwxyz'') c of
        None \<Rightarrow> c
      | Some d \<Rightarrow> d)"

definition toLowerCase :: "string \<Rightarrow> string" where
  "toLowerCase s = map lowerChar s"

fun startsWith :: "string \<Rightarrow> string \<Rightarrow> bool" where
  "startsWith s [] = True"
| "startsWith [] (c # cs) = False"
| "startsWith (d # ds) (c # cs) = (d = c \<and> startsWith ds cs)"

fun includes_str :: "string \<Rightarrow> string \<Rightarrow> bool" where
  "includes_str [] t = (t = [])"
| "includes_str (d # ds) t = (startsWith (d # ds) t \<or> includes_str ds t)"

definition trim :: "string \<Rightarrow> string" where
  "trim s = rev (dropWhile isSpace (rev (dropWhile isSpace s)))"

text \<open>
  A number is modelled as an exact rational, with \<open>None\<close> for \<^verbatim>\<open>NaN\<close>; the rounding of
  IEEE doubles and the infinities are not modelled. \<open>Number\<close> on a string follows the
  decimal part of the language's string-to-number grammar: surrounding white space is
  dropped, the empty string is 0, then an optional sign and digits with an optional
  fraction. Every other string is \<^verbatim>\<open>NaN\<close> (hexadecimal, exponent and \<^verbatim>\<open>Infinity\<close> literals
  are outside the model).
\<close>

type_synonym number = "rat option"

definition digitVal :: "char \<Rightarrow> nat" where
  "digitVal c = of_char c - (48::nat)"

definition digitsValue :: "string \<Rightarrow> nat" where
  "digitsValue s = foldl (\<lambda>n c. 10 * n + digitVal c) 0 s"

definition unsignedDecimal :: "string \<Rightarrow> number" where
  "unsignedDecimal s =
     (let ip = takeWhile isDigit s; rest = dropWhile isDigit s in
      if rest = [] then (if ip = [] then None else Some (of_nat (digitsValue ip)))
      else if hd rest = CHR ''.'' \<and> list_all isDigit (tl rest) \<and> (ip \<noteq> [] \<or> tl rest \<noteq> [])
      then Some (of_nat (digitsValue ip) + of_nat (digitsValue (tl rest)) / 10 ^ length (tl rest))
      else None)"

definition stringToNumber :: "string \<Rightarrow> number" where
  "stringToNumber s =
     (let t = trim s in
      if t = [] then Some 0
      else if hd t = CHR ''-'' then map_option uminus (unsignedDecimal (tl t))
      else if hd t = CHR ''+'' then unsignedDecimal (tl t)
      else unsignedDecimal t)"

text \<open>
  \<open>String\<close> on a whole number is its decimal numeral, with a minus sign when negative (the
  exponent notation of very large numbers is outside the model).
\<close>

definition digitChar :: "nat \<Rightarrow> char" where
  "digitChar d = ''0123456789'' ! d"

fun showNat :: "nat \<Rightarrow> string" where
  "showNat n = (if n < 10 then [digitChar n] else showNat (n div 10) @ [digitChar (n mod 10)])"

declare showNat.simps [simp del]

definition showInt :: "int \<Rightarrow> string" where
  "showInt i = (if i < 0 then CHR ''-'' # showNat (nat (- i)) else showNat (nat i))"

text \<open>A property value of an account is a string or a number.\<close>

datatype jsval = JStr string | JNum int

fun String :: "jsval \<Rightarrow> string" where
  "String (JStr s) = s"
| "String (JNum n) = showInt n"

fun Number :: "jsval \<Rightarrow> number" where
  "Number (JStr s) = stringToNumber s"
| "Number (JNum n) = Some (of_int n)"

text \<open>Comparisons and subtraction of numbers: any comparison with \<^verbatim>\<open>NaN\<close> is false.\<close>

fun numGt :: "number \<Rightarrow> number \<Rightarrow> bool" where
  "numGt (Some a) (Some b) = (a > b)"
| "numGt _ _ = False"

fun numLt :: "number \<Rightarrow> number \<Rightarrow> bool" where
  "numLt (Some a) (Some b) = (a < b)"
| "numLt _ _ = False"

fun numGe :: "number \<Rightarrow> number \<Rightarrow> bool" where
  "numGe (Some a) (Some b) = (a \<ge> b)"
| "numGe _ _ = False"

fun numLe :: "number \<Rightarrow> number \<Rightarrow> bool" where
  "numLe (Some a) (Some b) = (a \<le> b)"
| "numLe _ _ = False"

fun numSub :: "number \<Rightarrow> number \<Rightarrow> number" where
  "numSub (Some a) (Some b) = Some (a - b)"
| "numSub _ _ = None"

section \<open>Data model\<close>

text \<open>
  An account. The status is one of four string literals; the balance is a whole number,
  as the data generator makes it.
\<close>

datatype account_status = Open | Closed | Collections | Suspended

fun statusString :: "account_status \<Rightarrow> string" where
  "statusString Open = ''Open''"
| "statusString Closed = ''Closed''"
| "statusString Collections = ''Collections''"
| "statusString Suspended = ''Suspended''"

record Account =
  id_acc :: string
  accountNumber :: string
  companyName :: string
  contactName :: string
  phoneNumber :: string
  email :: string
  status :: account_status
  balance :: int
  createdDate :: string
  lastActivity :: string
  dateAdded :: string

text \<open>\<^verbatim>\<open>keyof Account\<close>, and the property read \<^verbatim>\<open>account[field]\<close>.\<close>

datatype account_field =
  Id | AccountNumber | CompanyName | ContactName | PhoneNumber | Email | Status | Balance
  | CreatedDate | LastActivity | DateAdded

fun getProp :: "Account \<Rightarrow> account_field \<Rightarrow> jsval" where
  "getProp a Id = JStr (id_acc a)"
| "getProp a AccountNumber = JStr (accountNumber a)"
| "getProp a CompanyName = JStr (companyName a)"
| "getProp a ContactName = JStr (contactName a)"
| "getProp a PhoneNumber = JStr (phoneNumber a)"
| "getProp a Email = JStr (email a)"
| "getProp a Status = JStr (statusString (status a))"
| "getProp a Balance = JNum (balance a)"
| "getProp a CreatedDate = JStr (createdDate a)"
| "getProp a LastActivity = JStr (lastActivity a)"
| "getProp a DateAdded = JStr (dateAdded a)"

datatype LogicOperator = And | Or

datatype FilterOperator =
  Is | Contains | DoesNotContain | StartsWith | Gt | Lt | Ge | Le | Before | After

text \<open>
  An advanced filter; the optional properties \<^verbatim>\<open>startDate\<close> and \<^verbatim>\<open>endDate\<close> are \<open>None\<close> when
  absent.
\<close>

record AdvancedFilter =
  id_filter :: string
  logic :: LogicOperator
  field :: account_field
  operator :: FilterOperator
  values_filter :: "string list"
  inputValue :: string
  startDate :: "string option"
  endDate :: "string option"

section \<open>Filter evaluation\<close>

text \<open>\<^verbatim>\<open>x || ''\<close> on an optional string.\<close>

definition orEmpty :: "string option \<Rightarrow> string" where
  "orEmpty x = (case x of None \<Rightarrow> [] | Some s \<Rightarrow> s)"

text \<open>The switch over the operator in \<^verbatim>\<open>evaluateFilter\<close> of the primary search page.\<close>

fun operatorTest_primary :: "FilterOperator \<Rightarrow> jsval \<Rightarrow> string list \<Rightarrow> bool" where
  "operatorTest_primary Is fieldValue filterValues =
     list_ex (\<lambda>v. toLowerCase (String fieldValue) = toLowerCase v) filterValues"
| "operatorTest_primary Contains fieldValue filterValues =
     list_ex (\<lambda>v. includes_str (toLowerCase (String fieldValue)) (toLowerCase v)) filterValues"
| "operatorTest_primary DoesNotContain fieldValue filterValues =
     list_all (\<lambda>v. \<not> includes_str (toLowerCase (String fieldValue)) (toLowerCase v)) filterValues"
| "operatorTest_primary StartsWith fieldValue filterValues =
     list_ex (\<lambda>v. startsWith (toLowerCase (String fieldValue)) (toLowerCase v)) filterValues"
| "operatorTest_primary Gt fieldValue filterValues =
     list_ex (\<lambda>v. numGt (Number fieldValue) (stringToNumber v)) filterValues"
| "operatorTest_primary Lt fieldValue filterValues =
     list_ex (\<lambda>v. numLt (Number fieldValue) (stringToNumber v)) filterValues"
| "operatorTest_primary Ge fieldValue filterValues =
     list_ex (\<lambda>v. numGe (Number fieldValue) (stringToNumber v)) filterValues"
| "operatorTest_primary Le fieldValue filterValues =
     list_ex (\<lambda>v. numLe (Number fieldValue) (stringToNumber v)) filterValues"
| "operatorTest_primary Before fieldValue filterValues = True"
| "operatorTest_primary After fieldValue filterValues = True"

definition evaluateFilter_primary :: "Account \<Rightarrow> AdvancedFilter \<Rightarrow> bool" where
  "evaluateFilter_primary account flt =
     (if field flt = DateAdded then
        (let accountDate = String (getProp account (field flt));
             start = orEmpty (startDate flt);
             end_d = orEmpty (endDate flt) in
         if start \<noteq> [] \<and> end_d = [] then accountDate \<ge> start
         else if start = [] \<and> end_d \<noteq> [] then accountDate \<le> end_d
         else if start \<noteq> [] \<and> end_d \<noteq> [] then accountDate \<ge> start \<and> accountDate \<le> end_d
         else True)
      else if values_filter flt = [] then True
      else operatorTest_primary (operator flt) (getProp account (field flt)) (values_filter flt))"

text \<open>The same function of the secondary search page: no date range, two more operators.\<close>

fun operatorTest_secondary :: "FilterOperator \<Rightarrow> jsval \<Rightarrow> string list \<Rightarrow> bool" where
  "operatorTest_secondary Is fieldValue filterValues =
     list_ex (\<lambda>v. toLowerCase (String fieldValue) = toLowerCase v) filterValues"
| "operatorTest_secondary Contains fieldValue filterValues =
     list_ex (\<lambda>v. includes_str (toLowerCase (String fieldValue)) (toLowerCase v)) filterValues"
| "operatorTest_secondary DoesNotContain fieldValue filterValues =
     list_all (\<lambda>v. \<not> includes_str (toLowerCase (String fieldValue)) (toLowerCase v)) filterValues"
| "operatorTest_secondary StartsWith fieldValue filterValues =
     list_ex (\<lambda>v. startsWith (toLowerCase (String fieldValue)) (toLowerCase v)) filterValues"
| "operatorTest_secondary Gt fieldValue filterValues =
     list_ex (\<lambda>v. numGt (Number fieldValue) (stringToNumber v)) filterValues"
| "operatorTest_secondary Lt fieldValue filterValues =
     list_ex (\<lambda>v. numLt (Number fieldValue) (stringToNumber v)) filterValues"
| "operatorTest_secondary Ge fieldValue filterValues =
     list_ex (\<lambda>v. numGe (Number fieldValue) (stringToNumber v)) filterValues"
| "operatorTest_secondary Le fieldValue filterValues =
     list_ex (\<lambda>v. numLe (Number fieldValue) (stringToNumber v)) filterValues"
| "operatorTest_secondary Before fieldValue filterValues =
     list_ex (\<lambda>v. String fieldValue < v) filterValues"
| "operatorTest_secondary After fieldValue filterValues =
     list_ex (\<lambda>v. String fieldValue > v) filterValues"

definition evaluateFilter_secondary :: "Account \<Rightarrow> AdvancedFilter \<Rightarrow> bool" where
  "evaluateFilter_secondary account flt =
     (if values_filter flt = [] then True
      else operatorTest_secondary (operator flt) (getProp account (field flt)) (values_filter flt))"

text \<open>
  The loop over the executed advanced filters, the same in both pages: \<open>i\<close> is the loop
  index and \<open>result\<close> the accumulator. The pages enter it, with \<open>result = true\<close>, only
  when the list is not empty.
\<close>

function filterLoop ::
  "(Account \<Rightarrow> AdvancedFilter \<Rightarrow> bool) \<Rightarrow> Account \<Rightarrow> AdvancedFilter list \<Rightarrow> nat \<Rightarrow> bool \<Rightarrow> bool"
where
  "filterLoop ev account filters i result =
     (if i < length filters then
        (let flt = filters ! i; matches = ev account flt in
         if i = 0 then filterLoop ev account filters (Suc i) matches
         else if logic flt = And then filterLoop ev account filters (Suc i) (result \<and> matches)
         else filterLoop ev account filters (Suc i) (result \<or> matches))
      else result)"
  by pat_completeness auto
termination
  by (relation "measure (\<lambda>(ev, account, filters, i, result). length filters - i)") auto

declare filterLoop.simps [simp del]

definition advancedResult_primary :: "Account \<Rightarrow> AdvancedFilter list \<Rightarrow> bool" where
  "advancedResult_primary account executedAdvancedFilters =
     filterLoop evaluateFilter_primary account executedAdvancedFilters 0 True"

definition advancedResult_secondary :: "Account \<Rightarrow> AdvancedFilter list \<Rightarrow> bool" where
  "advancedResult_secondary account executedAdvancedFilters =
     filterLoop evaluateFilter_secondary account executedAdvancedFilters 0 True"

section \<open>Validation\<close>

record ValidationResult =
  valid :: bool
  error :: "string option"

definition validateSearchInput :: "account_field \<Rightarrow> string \<Rightarrow> ValidationResult" where
  "validateSearchInput fld val =
     (if val = [] then \<lparr>valid = True, error = None\<rparr>
      else if fld = AccountNumber \<and> list_ex isLetter val
        then \<lparr>valid = False, error = Some ''Account number cannot contain letters''\<rparr>
      else if fld = PhoneNumber
              \<and> list_ex isLetter
                    (filter (\<lambda>c. \<not> (isSpace c \<or> c = CHR ''-'' \<or> c = CHR ''('' \<or> c = CHR '')'')) val)
        then \<lparr>valid = False, error = Some ''Phone number cannot contain letters''\<rparr>
      else \<lparr>valid = True, error = None\<rparr>)"

text \<open>The pattern \<^verbatim>\<open>^\d+(\.\d+)?$\<close> and the pattern \<^verbatim>\<open>^\d+$\<close>.\<close>

definition balancePattern :: "string \<Rightarrow> bool" where
  "balancePattern s =
     (let ip = takeWhile isDigit s; rest = dropWhile isDigit s in
      ip \<noteq> [] \<and> (rest = [] \<or> (hd rest = CHR ''.'' \<and> tl rest \<noteq> [] \<and> list_all isDigit (tl rest))))"

definition digitsPattern :: "string \<Rightarrow> bool" where
  "digitsPattern s = (s \<noteq> [] \<and> list_all isDigit s)"

text \<open>
  The state of the primary search page that entering a filter value reads and writes:
  the advanced filters being edited and the error shown under each, keyed by filter id.
\<close>

record PageState =
  advancedFilters :: "AdvancedFilter list"
  filterErrors :: "string \<rightharpoonup> string"

definition updateAdvancedFilter ::
  "PageState \<Rightarrow> string \<Rightarrow> (AdvancedFilter \<Rightarrow> AdvancedFilter) \<Rightarrow> PageState" where
  "updateAdvancedFilter st ident updates =
     st\<lparr>advancedFilters := map (\<lambda>f. if id_filter f = ident then updates f else f) (advancedFilters st)\<rparr>"

definition setFilterError :: "PageState \<Rightarrow> string \<Rightarrow> string \<Rightarrow> PageState" where
  "setFilterError st filterId msg = st\<lparr>filterErrors := (filterErrors st)(filterId \<mapsto> msg)\<rparr>"

definition clearFilterError :: "PageState \<Rightarrow> string \<Rightarrow> PageState" where
  "clearFilterError st filterId = st\<lparr>filterErrors := (filterErrors st)(filterId := None)\<rparr>"

text \<open>\<^verbatim>\<open>validation.error || 'Invalid input'\<close>.\<close>

definition errorOrDefault :: "string option \<Rightarrow> string" where
  "errorOrDefault e = (if orEmpty e = [] then ''Invalid input'' else orEmpty e)"

text \<open>\<^verbatim>\<open>addValueToFilter\<close> of the primary search page.\<close>

definition addValueToFilter :: "PageState \<Rightarrow> string \<Rightarrow> PageState" where
  "addValueToFilter st filterId =
     (case find (\<lambda>f. id_filter f = filterId) (advancedFilters st) of
        None \<Rightarrow> st
      | Some flt \<Rightarrow>
          if trim (inputValue flt) = [] then st
          else
            (let val = trim (inputValue flt);
                 st1 = clearFilterError st filterId in
             if field flt = Balance \<and> \<not> balancePattern val
               then setFilterError st1 filterId ''Balance must be a valid number''
             else if field flt = PhoneNumber
                     \<and> \<not> digitsPattern
                          (filter (\<lambda>c. \<not> (isSpace c \<or> c = CHR ''-'' \<or> c = CHR ''('' \<or> c = CHR '')'')) val)
               then setFilterError st1 filterId ''Phone number cannot contain letters''
             else
               (let validation = validateSearchInput (field flt) val in
                if \<not> valid validation
                  then setFilterError st1 filterId (errorOrDefault (error validation))
                else updateAdvancedFilter st1 filterId
                       (\<lambda>f. f\<lparr>values_filter := values_filter flt @ [val], inputValue := []\<rparr>))))"

section \<open>Sorting\<close>

text \<open>
  \<^verbatim>\<open>Array.prototype.sort\<close> with a comparator. The language fixes the result only for a
  consistent comparator, and then it is the stable sort: the model is the stable insertion
  sort, every element going before the first one it does not compare greater than. A
  comparator result that is \<^verbatim>\<open>NaN\<close> counts as 0.
\<close>

fun insertBy :: "('a \<Rightarrow> 'a \<Rightarrow> number) \<Rightarrow> 'a \<Rightarrow> 'a list \<Rightarrow> 'a list" where
  "insertBy cmp x [] = [x]"
| "insertBy cmp x (y # ys) =
     (if numGt (cmp x y) (Some 0) then y # insertBy cmp x ys else x # y # ys)"

definition arraySort :: "('a \<Rightarrow> 'a \<Rightarrow> number) \<Rightarrow> 'a list \<Rightarrow> 'a list" where
  "arraySort cmp xs = foldr (insertBy cmp) xs []"

text \<open>
  The comparator of \<^verbatim>\<open>sortAccountsByField\<close>. \<open>localeCompare\<close> is the host's locale-aware
  string comparison, taken as a parameter.
\<close>

definition sortComparator ::
  "(string \<Rightarrow> string \<Rightarrow> int) \<Rightarrow> account_field \<Rightarrow> Account \<Rightarrow> Account \<Rightarrow> number" where
  "sortComparator localeCompare fld a b =
     (let aValue = getProp a fld; bValue = getProp b fld in
      if fld = AccountNumber then numSub (Number aValue) (Number bValue)
      else if fld = PhoneNumber then
        (let aDigits = filter isDigit (String aValue);
             bDigits = filter isDigit (String bValue) in
         numSub (stringToNumber aDigits) (stringToNumber bDigits))
      else if fld = Balance then numSub (Number bValue) (Number aValue)
      else if fld = DateAdded then
        (let aDate = String aValue; bDate = String bValue in
         if bDate > aDate then Some 1
         else if bDate < aDate then Some (- 1)
         else Some 0)
      else if fld = CompanyName \<or> fld = ContactName \<or> fld = Email then
        Some (of_int (localeCompare (String aValue) (String bValue)))
      else Some 0)"

text \<open>The list that \<^verbatim>\<open>sortAccountsByField\<close> returns, as a function of the list it is given.\<close>

definition sortAccountsByField ::
  "(string \<Rightarrow> string \<Rightarrow> int) \<Rightarrow> Account list \<Rightarrow> account_field \<Rightarrow> Account list" where
  "sortAccountsByField localeCompare accounts fld = arraySort (sortComparator localeCompare fld) accounts"

text \<open>
  The same function on a store of arrays, a reference being an index into the store:
  the spread \<^verbatim>\<open>[...accounts]\<close> allocates a copy, \<^verbatim>\<open>sort\<close> reorders that copy in place and
  returns its reference.
\<close>

type_synonym store = "Account list list"

text \<open>\<open>r\<close> is a reference of the store: \<open>r < length h\<close>.\<close>

definition spreadCopy :: "store \<Rightarrow> nat \<Rightarrow> store \<times> nat" where
  "spreadCopy h r = (h @ [h ! r], length h)"

definition sortInPlace :: "(Account \<Rightarrow> Account \<Rightarrow> number) \<Rightarrow> store \<Rightarrow> nat \<Rightarrow> store \<times> nat" where
  "sortInPlace cmp h r = (h[r := arraySort cmp (h ! r)], r)"

definition sortAccountsByField_store ::
  "(string \<Rightarrow> string \<Rightarrow> int) \<Rightarrow> store \<Rightarrow> nat \<Rightarrow> account_field \<Rightarrow> store \<times> nat" where
  "sortAccountsByField_store localeCompare h accounts fld =
     (let (h1, copy) = spreadCopy h accounts in
      sortInPlace (sortComparator localeCompare fld) h1 copy)"

section \<open>Closest matches\<close>

text \<open>
  Scores are exact rationals. The loop that looks for the characters of the search term in
  order: the first argument is the field value from the loop index on.
\<close>

fun scanLoop :: "string \<Rightarrow> string \<Rightarrow> nat \<Rightarrow> nat \<Rightarrow> nat \<Rightarrow> nat \<times> nat" where
  "scanLoop [] search searchIndex consecutiveMatches maxConsecutive = (searchIndex, maxConsecutive)"
| "scanLoop (c # cs) search searchIndex consecutiveMatches maxConsecutive =
     (if searchIndex < length search then
        (if c = search ! searchIndex
         then scanLoop cs search (Suc searchIndex) (Suc consecutiveMatches)
                (max maxConsecutive (Suc consecutiveMatches))
         else scanLoop cs search searchIndex 0 maxConsecutive)
      else (searchIndex, maxConsecutive))"

text \<open>\<^verbatim>\<open>split(/\s+/)\<close>: the pieces between the maximal runs of white space.\<close>

function splitWhitespace :: "string \<Rightarrow> string \<Rightarrow> string list" where
  "splitWhitespace cur [] = [cur]"
| "splitWhitespace cur (c # cs) =
     (if isSpace c then cur # splitWhitespace [] (dropWhile isSpace cs)
      else splitWhitespace (cur @ [c]) cs)"
  by pat_completeness auto
termination
  by (relation "measure (\<lambda>(cur, s). length s)") (auto simp: length_dropWhile_le less_Suc_eq_le)

definition wordBonus :: "string \<Rightarrow> rat \<Rightarrow> string \<Rightarrow> rat" where
  "wordBonus search score word =
     (let score1 = (if startsWith word search then score + 100 else score) in
      if includes_str word search then score1 + 50 else score1)"

definition computeScore :: "string \<Rightarrow> string \<Rightarrow> rat" where
  "computeScore fieldValue search =
     (let score1 = (if fieldValue = search then 1000 else 0);
          score2 = (if startsWith fieldValue search then score1 + 500 else score1);
          score3 = (if includes_str fieldValue search then score2 + 200 else score2);
          (searchIndex, maxConsecutive) = scanLoop fieldValue search 0 0 0;
          score4 = (if searchIndex = length search
                    then score3 + (150 + of_nat maxConsecutive * 20) else score3);
          matchingChars = length (filter (\<lambda>c. c \<in> set search) fieldValue);
          score5 = score4 + (of_nat matchingChars / of_nat (length search)) * 50;
          score6 = foldl (wordBonus search) score5 (splitWhitespace [] fieldValue);
          lengthDiff = \<bar>int (length fieldValue) - int (length search)\<bar> in
      if lengthDiff > 10 then score6 - of_int (lengthDiff * 2) else score6 - of_int lengthDiff)"

record Scored =
  account_of :: Account
  score_of :: rat
  fieldValue_of :: string

definition scoreAccount :: "string \<Rightarrow> account_field \<Rightarrow> Account \<Rightarrow> Scored" where
  "scoreAccount searchTerm fld acc =
     (let fieldValue = toLowerCase (String (getProp acc fld));
          search = toLowerCase searchTerm in
      \<lparr>account_of = acc, score_of = computeScore fieldValue search, fieldValue_of = fieldValue\<rparr>)"

text \<open>The loop that drops repeated field values and stops at five suggestions.\<close>

fun uniqueLoop :: "Scored list \<Rightarrow> string set \<Rightarrow> Scored list \<Rightarrow> Scored list" where
  "uniqueLoop [] seen unique = unique"
| "uniqueLoop (item # rest) seen unique =
     (if fieldValue_of item \<notin> seen then
        (let seen1 = insert (fieldValue_of item) seen;
             unique1 = unique @ [item] in
         if length unique1 \<ge> 5 then unique1 else uniqueLoop rest seen1 unique1)
      else uniqueLoop rest seen unique)"

definition findClosestMatches :: "string \<Rightarrow> Account list \<Rightarrow> account_field \<Rightarrow> Account list" where
  "findClosestMatches searchTerm accounts fld =
     (if searchTerm = [] then []
      else
        (let scored = map (scoreAccount searchTerm fld) accounts;
             sortedItems = filter (\<lambda>item. score_of item > 0)
                             (arraySort (\<lambda>a b. Some (score_of b - score_of a)) scored);
             unique = uniqueLoop sortedItems {} [] in
         map account_of unique))"

section \<open>Notions of the specification and example data\<close>

text \<open>
  The compound fold in the words of the specification: the first condition seeds the
  accumulator, each later one combines with it by its own tag.
\<close>

definition combine :: "(AdvancedFilter \<Rightarrow> bool) \<Rightarrow> bool \<Rightarrow> AdvancedFilter \<Rightarrow> bool" where
  "combine m acc c = (if logic c = And then acc \<and> m c else acc \<or> m c)"

definition compoundFold :: "(AdvancedFilter \<Rightarrow> bool) \<Rightarrow> AdvancedFilter \<Rightarrow> AdvancedFilter list \<Rightarrow> bool" where
  "compoundFold m c cs = foldl (combine m) (m c) cs"

text \<open>Appearing as a substring, and as a prefix.\<close>

definition substringOf :: "string \<Rightarrow> string \<Rightarrow> bool" where
  "substringOf t s = (\<exists>ps ss. s = ps @ t @ ss)"

definition prefixOf :: "string \<Rightarrow> string \<Rightarrow> bool" where
  "prefixOf t s = (\<exists>ss. s = t @ ss)"

text \<open>An account as the data generator builds them, and the filter row a page starts with.\<close>

definition exampleAccount :: Account where
  "exampleAccount =
     \<lparr>id_acc = ''ACC00001'', accountNumber = ''12345678'', companyName = ''Acme Corp'',
      contactName = ''John Smith'', phoneNumber = ''(555) 123-4567'',
      email = ''john.smith@example.com'', status = Open, balance = 5000,
      createdDate = ''2021-03-04'', lastActivity = ''2024-05-06'', dateAdded = ''2022-07-08''\<rparr>"

definition initialFilter :: AdvancedFilter where
  "initialFilter =
     \<lparr>id_filter = ''1'', logic = And, field = AccountNumber, operator = Is, values_filter = [],
      inputValue = [], startDate = None, endDate = None\<rparr>"

definition filterA :: AdvancedFilter where
  "filterA = initialFilter\<lparr>field := CompanyName, operator := Contains, values_filter := [''acme'']\<rparr>"

definition filterB :: AdvancedFilter where
  "filterB = initialFilter\<lparr>logic := Or, field := Balance, operator := Gt, values_filter := [''9000'']\<rparr>"

definition filterC :: AdvancedFilter where
  "filterC = initialFilter\<lparr>field := Status, operator := Is, values_filter := [''closed'']\<rparr>"

definition filterD :: AdvancedFilter where
  "filterD = initialFilter\<lparr>field := CompanyName, operator := DoesNotContain, values_filter := [''Acme'', ''Corp'']\<rparr>"

definition filterE :: AdvancedFilter where
  "filterE = initialFilter\<lparr>field := Balance, operator := Gt\<rparr>"

definition filterF :: AdvancedFilter where
  "filterF = initialFilter\<lparr>field := DateAdded, startDate := Some ''2022-01-01'', endDate := Some ''2022-12-31''\<rparr>"

text \<open>A date bound is set when it is present and not the empty string.\<close>

definition boundSet :: "string option \<Rightarrow> bool" where
  "boundSet x = (x \<noteq> None \<and> x \<noteq> Some [])"

text \<open>Digits only, and few enough for the number to be exact in a double.\<close>

definition exactNumericString :: "string \<Rightarrow> bool" where
  "exactNumericString s = (digitsPattern s \<and> length s \<le> 15)"

text \<open>A comparison of strings by code units, standing for the host's comparison in examples.\<close>

definition codeUnitCompare :: "string \<Rightarrow> string \<Rightarrow> int" where
  "codeUnitCompare s t = (if s < t then - 1 else if t < s then 1 else 0)"

definition threeBalances :: "Account list" where
  "threeBalances =
     [exampleAccount\<lparr>balance := 5000\<rparr>, exampleAccount\<lparr>balance := - 200\<rparr>,
      exampleAccount\<lparr>balance := 1000\<rparr>]"

definition twoAccountNumbers :: "Account list" where
  "twoAccountNumbers = [exampleAccount\<lparr>accountNumber := ''10''\<rparr>, exampleAccount\<lparr>accountNumber := ''9''\<rparr>]"

text \<open>
  A non-negative decimal number without a sign: digits, optionally followed by a point
  and more digits.
\<close>

definition nonNegativeDecimal :: "string \<Rightarrow> bool" where
  "nonNegativeDecimal s =
     (\<exists>ip fp. ip \<noteq> [] \<and> list_all isDigit ip \<and> list_all isDigit fp
        \<and> (s = ip \<or> (fp \<noteq> [] \<and> s = ip @ ''.'' @ fp)))"

definition balanceFilter :: "string \<Rightarrow> AdvancedFilter" where
  "balanceFilter input = initialFilter\<lparr>field := Balance, operator := Gt, inputValue := input\<rparr>"

definition pageWith :: "AdvancedFilter \<Rightarrow> PageState" where
  "pageWith flt = \<lparr>advancedFilters = [flt], filterErrors = Map.empty\<rparr>"

text \<open>The field value case-folded and trimmed, and case-folded only.\<close>

definition trimmedKey :: "account_field \<Rightarrow> Account \<Rightarrow> string" where
  "trimmedKey fld a = trim (toLowerCase (String (getProp a fld)))"

definition loweredKey :: "account_field \<Rightarrow> Account \<Rightarrow> string" where
  "loweredKey fld a = toLowerCase (String (getProp a fld))"

text \<open>The score the function gives an account.\<close>

definition accountScore :: "string \<Rightarrow> account_field \<Rightarrow> Account \<Rightarrow> rat" where
  "accountScore searchTerm fld a = score_of (scoreAccount searchTerm fld a)"

definition spacedAccounts :: "Account list" where
  "spacedAccounts = [exampleAccount\<lparr>companyName := ''Acme''\<rparr>, exampleAccount\<lparr>companyName := ''Acme ''\<rparr>]"

text \<open>
  The ranking in the words of the specification: the candidates in descending order of
  score, without those of score 0 or less, of each (lower-cased) field value only the
  first, and of these the first five.
\<close>

fun firstOccurrences :: "string set \<Rightarrow> Scored list \<Rightarrow> Scored list" where
  "firstOccurrences seen [] = []"
| "firstOccurrences seen (x # xs) =
     (if fieldValue_of x \<in> seen then firstOccurrences seen xs
      else x # firstOccurrences (insert (fieldValue_of x) seen) xs)"

definition rankedSuggestions :: "string \<Rightarrow> Account list \<Rightarrow> account_field \<Rightarrow> Account list" where
  "rankedSuggestions searchTerm accounts fld =
     map account_of
       (take 5 (firstOccurrences {}
          (filter (\<lambda>item. score_of item > 0)
             (arraySort (\<lambda>a b. Some (score_of b - score_of a))
                (map (scoreAccount searchTerm fld) accounts)))))"

section \<open>Substrings and prefixes\<close>

lemma startsWith_iff: "startsWith s t \<longleftrightarrow> (\<exists>ss. s = t @ ss)"
  by (induction s t rule: startsWith.induct) auto

lemma includes_str_iff: "includes_str s t \<longleftrightarrow> (\<exists>ps ss. s = ps @ t @ ss)"
proof (induction s)
  case Nil
  then show ?case by auto
next
  case (Cons d ds)
  show ?case
  proof
    assume "includes_str (d # ds) t"
    then consider "startsWith (d # ds) t" | "includes_str ds t" by auto
    then show "\<exists>ps ss. d # ds = ps @ t @ ss"
    proof cases
      case 1
      then obtain ss where "d # ds = t @ ss" by (auto simp: startsWith_iff)
      then have "d # ds = [] @ t @ ss" by simp
      then show ?thesis by blast
    next
      case 2
      then obtain ps ss where "ds = ps @ t @ ss" using Cons.IH by auto
      then have "d # ds = (d # ps) @ t @ ss" by simp
      then show ?thesis by blast
    qed
  next
    assume "\<exists>ps ss. d # ds = ps @ t @ ss"
    then obtain ps ss where e: "d # ds = ps @ t @ ss" by auto
    show "includes_str (d # ds) t"
    proof (cases ps)
      case Nil
      with e have "startsWith (d # ds) t" by (auto simp: startsWith_iff)
      then show ?thesis by simp
    next
      case (Cons p ps')
      with e have "ds = ps' @ t @ ss" by simp
      then have "includes_str ds t" using Cons.IH by blast
      then show ?thesis by simp
    qed
  qed
qed

section \<open>The compound fold\<close>

lemma combine_And: "logic c = And \<Longrightarrow> combine m acc c = (acc \<and> m c)"
  by (simp add: combine_def)

lemma combine_Or: "logic c \<noteq> And \<Longrightarrow> combine m acc c = (acc \<or> m c)"
  by (simp add: combine_def)

lemma filterLoop_foldl:
  "0 < i \<Longrightarrow> filterLoop ev account filters i result =
     foldl (combine (ev account)) result (drop i filters)"
proof (induction ev account filters i result rule: filterLoop.induct)
  case (1 ev account filters i result)
  show ?case
  proof (cases "i < length filters")
    case True
    then have d: "drop i filters = filters ! i # drop (Suc i) filters"
      by (simp add: Cons_nth_drop_Suc)
    let ?m = "ev account (filters ! i)"
    show ?thesis
    proof (cases "logic (filters ! i) = And")
      case True
      have "filterLoop ev account filters i result =
            filterLoop ev account filters (Suc i) (result \<and> ?m)"
        using \<open>i < length filters\<close> \<open>0 < i\<close> True
        by (subst filterLoop.simps) (simp add: Let_def)
      also have "\<dots> = foldl (combine (ev account)) (result \<and> ?m) (drop (Suc i) filters)"
        using "1.IH"(2) [OF \<open>i < length filters\<close> refl refl _ True] \<open>0 < i\<close> by simp
      finally show ?thesis using d combine_And [OF True] by simp
    next
      case False
      have "filterLoop ev account filters i result =
            filterLoop ev account filters (Suc i) (result \<or> ?m)"
        using \<open>i < length filters\<close> \<open>0 < i\<close> False
        by (subst filterLoop.simps) (simp add: Let_def)
      also have "\<dots> = foldl (combine (ev account)) (result \<or> ?m) (drop (Suc i) filters)"
        using "1.IH"(3) [OF \<open>i < length filters\<close> refl refl _ False] \<open>0 < i\<close> by simp
      finally show ?thesis using d combine_Or [OF False] by simp
    qed
  next
    case False
    then show ?thesis by (subst filterLoop.simps) simp
  qed
qed

lemma filterLoop_seed:
  "filterLoop ev account (c # cs) 0 result = compoundFold (ev account) c cs"
  by (subst filterLoop.simps) (simp add: filterLoop_foldl compoundFold_def Let_def)

lemma evaluateFilter_primary_logic [simp]:
  "evaluateFilter_primary account (c\<lparr>logic := l\<rparr>) = evaluateFilter_primary account c"
  by (simp add: evaluateFilter_primary_def)

lemma evaluateFilter_secondary_logic [simp]:
  "evaluateFilter_secondary account (c\<lparr>logic := l\<rparr>) = evaluateFilter_secondary account c"
  by (simp add: evaluateFilter_secondary_def)

text \<open>
  C1. For every record and every chain of at least one condition, on both pages, the
  compound evaluation is the left-to-right fold: the first condition's result seeds the
  accumulator and its logic tag is ignored, each later condition combines with the
  accumulator by its own tag, and a chain \<open>A; Or B; And C\<close> evaluates as \<open>(A or B) and C\<close>.
\<close>

theorem compound_left_to_right:
  "advancedResult_primary account (c # cs) = compoundFold (evaluateFilter_primary account) c cs
   \<and> advancedResult_secondary account (c # cs) = compoundFold (evaluateFilter_secondary account) c cs
   \<and> advancedResult_primary account (c\<lparr>logic := l\<rparr> # cs) = advancedResult_primary account (c # cs)
   \<and> advancedResult_secondary account (c\<lparr>logic := l\<rparr> # cs) = advancedResult_secondary account (c # cs)
   \<and> advancedResult_primary account [A, B\<lparr>logic := Or\<rparr>, C\<lparr>logic := And\<rparr>] =
       ((evaluateFilter_primary account A \<or> evaluateFilter_primary account B)
         \<and> evaluateFilter_primary account C)
   \<and> advancedResult_secondary account [A, B\<lparr>logic := Or\<rparr>, C\<lparr>logic := And\<rparr>] =
       ((evaluateFilter_secondary account A \<or> evaluateFilter_secondary account B)
         \<and> evaluateFilter_secondary account C)"
  by (simp add: advancedResult_primary_def advancedResult_secondary_def filterLoop_seed
      compoundFold_def combine_def)

text \<open>
  On the example account, \<open>A\<close> holds and \<open>B\<close>, \<open>C\<close> fail: the chain fails, where
  \<open>A or (B and C)\<close> would hold.
\<close>

lemma filterA_primary: "evaluateFilter_primary exampleAccount filterA = True"
  by code_simp

lemma filterB_primary: "evaluateFilter_primary exampleAccount filterB = False"
  by (simp add: evaluateFilter_primary_def filterB_def initialFilter_def exampleAccount_def
      stringToNumber_def trim_def isSpace_def unsignedDecimal_def isDigit_def digitsValue_def
      digitVal_def)
lemma filterC_primary: "evaluateFilter_primary exampleAccount filterC = False"
  by code_simp

theorem compound_left_to_right_witness:
  "advancedResult_primary exampleAccount [filterA, filterB, filterC] = False
   \<and> (evaluateFilter_primary exampleAccount filterA
        \<or> (evaluateFilter_primary exampleAccount filterB \<and> evaluateFilter_primary exampleAccount filterC)) = True"
proof -
  have l: "filterB\<lparr>logic := Or\<rparr> = filterB" "filterC\<lparr>logic := And\<rparr> = filterC"
    by (simp_all add: filterB_def filterC_def initialFilter_def)
  show ?thesis
    using compound_left_to_right [of exampleAccount filterA "[]" And filterA filterB filterC]
    by (simp add: l filterA_primary filterB_primary filterC_primary)
qed

section \<open>Single conditions\<close>

lemma primary_nonDate:
  "field c \<noteq> DateAdded \<Longrightarrow> values_filter c \<noteq> [] \<Longrightarrow>
   evaluateFilter_primary account c =
     operatorTest_primary (operator c) (getProp account (field c)) (values_filter c)"
  by (simp add: evaluateFilter_primary_def)

lemma secondary_nonEmpty:
  "values_filter c \<noteq> [] \<Longrightarrow>
   evaluateFilter_secondary account c =
     operatorTest_secondary (operator c) (getProp account (field c)) (values_filter c)"
  by (simp add: evaluateFilter_secondary_def)

text \<open>
  C2. For a condition with a non-empty operand list (on the primary page: on a field other
  than the date, whose conditions take the date-range path), does-not-contain matches
  exactly when no operand is a substring of the field value, both lower-cased; is,
  contains, starts-with and the numeric comparisons match exactly when some operand passes
  the test.
\<close>

theorem operands_combination:
  assumes "values_filter c \<noteq> []"
    and "ev = evaluateFilter_secondary \<or> (ev = evaluateFilter_primary \<and> field c \<noteq> DateAdded)"
  shows "(operator c = DoesNotContain \<longrightarrow>
           ev account c = (\<forall>v \<in> set (values_filter c).
              \<not> substringOf (toLowerCase v) (toLowerCase (String (getProp account (field c))))))
       \<and> (operator c = Is \<longrightarrow>
           ev account c = (\<exists>v \<in> set (values_filter c).
              toLowerCase (String (getProp account (field c))) = toLowerCase v))
       \<and> (operator c = Contains \<longrightarrow>
           ev account c = (\<exists>v \<in> set (values_filter c).
              substringOf (toLowerCase v) (toLowerCase (String (getProp account (field c))))))
       \<and> (operator c = StartsWith \<longrightarrow>
           ev account c = (\<exists>v \<in> set (values_filter c).
              prefixOf (toLowerCase v) (toLowerCase (String (getProp account (field c))))))
       \<and> (operator c = Gt \<longrightarrow>
           ev account c = (\<exists>v \<in> set (values_filter c).
              numGt (Number (getProp account (field c))) (stringToNumber v)))
       \<and> (operator c = Lt \<longrightarrow>
           ev account c = (\<exists>v \<in> set (values_filter c).
              numLt (Number (getProp account (field c))) (stringToNumber v)))
       \<and> (operator c = Ge \<longrightarrow>
           ev account c = (\<exists>v \<in> set (values_filter c).
              numGe (Number (getProp account (field c))) (stringToNumber v)))
       \<and> (operator c = Le \<longrightarrow>
           ev account c = (\<exists>v \<in> set (values_filter c).
              numLe (Number (getProp account (field c))) (stringToNumber v)))"
proof -
  have inc: "\<And>s t. includes_str s t = substringOf t s"
    by (simp add: includes_str_iff substringOf_def)
  have pre: "\<And>s t. startsWith s t = prefixOf t s"
    by (simp add: startsWith_iff prefixOf_def)
  from assms(2) show ?thesis
  proof
    assume "ev = evaluateFilter_secondary"
    then have "ev account c =
        operatorTest_secondary (operator c) (getProp account (field c)) (values_filter c)"
      using secondary_nonEmpty [OF assms(1)] by simp
    then show ?thesis
      by (cases "operator c") (simp_all add: list_ex_iff list_all_iff inc pre)
  next
    assume "ev = evaluateFilter_primary \<and> field c \<noteq> DateAdded"
    then have "ev account c =
        operatorTest_primary (operator c) (getProp account (field c)) (values_filter c)"
      using primary_nonDate [OF _ assms(1)] by simp
    then show ?thesis
      by (cases "operator c") (simp_all add: list_ex_iff list_all_iff inc pre)
  qed
qed

lemma filterD_primary: "evaluateFilter_primary exampleAccount filterD = False"
  by code_simp

theorem operands_combination_witness:
  "values_filter filterD \<noteq> [] \<and> field filterD \<noteq> DateAdded \<and> operator filterD = DoesNotContain
   \<and> evaluateFilter_primary exampleAccount filterD = False
   \<and> (\<exists>v \<in> set (values_filter filterD).
         substringOf (toLowerCase v) (toLowerCase (String (getProp exampleAccount (field filterD)))))"
proof -
  have h: "values_filter filterD \<noteq> []" "field filterD \<noteq> DateAdded" "operator filterD = DoesNotContain"
    by (simp_all add: filterD_def initialFilter_def)
  from operands_combination [OF h(1), of evaluateFilter_primary exampleAccount] h filterD_primary
  show ?thesis by simp
qed

text \<open>
  C3. A condition with an empty operand list matches every record, whatever its field and
  operator: on the secondary page always, on the primary page when the field is not the
  date. A condition on the balance with operator \<open>>\<close> and no operand excludes no record.
\<close>

theorem empty_operands_match:
  assumes "values_filter c = []"
  shows "evaluateFilter_secondary account c
         \<and> (field c \<noteq> DateAdded \<longrightarrow> evaluateFilter_primary account c)"
  using assms by (simp add: evaluateFilter_secondary_def evaluateFilter_primary_def)

theorem empty_operands_match_witness:
  "values_filter filterE = [] \<and> field filterE = Balance \<and> operator filterE = Gt
   \<and> evaluateFilter_secondary exampleAccount filterE
   \<and> evaluateFilter_primary exampleAccount filterE"
proof -
  have h: "values_filter filterE = []" "field filterE = Balance" "operator filterE = Gt"
    by (simp_all add: filterE_def initialFilter_def)
  from empty_operands_match [OF h(1), of exampleAccount] h show ?thesis by simp
qed

lemma orEmpty_boundSet: "(orEmpty x \<noteq> []) = boundSet x"
  by (cases x) (simp_all add: orEmpty_def boundSet_def)

lemma orEmpty_the: "boundSet x \<Longrightarrow> orEmpty x = the x"
  by (cases x) (simp_all add: orEmpty_def boundSet_def)

text \<open>
  C6. On the primary page a condition on the date field matches as follows: with only a
  start bound set, when the record's date is at least the start; with only an end bound
  set, when it is at most the end; with both, when it lies between them; with neither,
  always. The dates are compared as strings, and the operator and the operand list play
  no part.
\<close>

theorem date_condition:
  assumes "field c = DateAdded"
  shows "(boundSet (startDate c) \<and> \<not> boundSet (endDate c) \<longrightarrow>
            evaluateFilter_primary account c = (dateAdded account \<ge> the (startDate c)))
       \<and> (\<not> boundSet (startDate c) \<and> boundSet (endDate c) \<longrightarrow>
            evaluateFilter_primary account c = (dateAdded account \<le> the (endDate c)))
       \<and> (boundSet (startDate c) \<and> boundSet (endDate c) \<longrightarrow>
            evaluateFilter_primary account c =
              (the (startDate c) \<le> dateAdded account \<and> dateAdded account \<le> the (endDate c)))
       \<and> (\<not> boundSet (startDate c) \<and> \<not> boundSet (endDate c) \<longrightarrow>
            evaluateFilter_primary account c)
       \<and> evaluateFilter_primary account (c\<lparr>operator := opr, values_filter := vs\<rparr>) =
            evaluateFilter_primary account c"
proof -
  have ind: "evaluateFilter_primary account (c\<lparr>operator := opr, values_filter := vs\<rparr>) =
             evaluateFilter_primary account c"
    using assms by (simp add: evaluateFilter_primary_def)
  show ?thesis
  proof (cases "boundSet (startDate c)")
    case s: True
    show ?thesis
    proof (cases "boundSet (endDate c)")
      case e: True
      from s e assms show ?thesis
        using orEmpty_boundSet [of "startDate c"] orEmpty_boundSet [of "endDate c"]
          orEmpty_the [OF s] orEmpty_the [OF e] ind
        by (simp add: evaluateFilter_primary_def Let_def)
    next
      case e: False
      from s e assms show ?thesis
        using orEmpty_boundSet [of "startDate c"] orEmpty_boundSet [of "endDate c"]
          orEmpty_the [OF s] ind
        by (simp add: evaluateFilter_primary_def Let_def)
    qed
  next
    case s: False
    show ?thesis
    proof (cases "boundSet (endDate c)")
      case e: True
      from s e assms show ?thesis
        using orEmpty_boundSet [of "startDate c"] orEmpty_boundSet [of "endDate c"]
          orEmpty_the [OF e] ind
        by (simp add: evaluateFilter_primary_def Let_def)
    next
      case e: False
      from s e assms show ?thesis
        using orEmpty_boundSet [of "startDate c"] orEmpty_boundSet [of "endDate c"] ind
        by (simp add: evaluateFilter_primary_def Let_def)
    qed
  qed
qed

lemma filterF_eval: "evaluateFilter_primary exampleAccount filterF = True"
  by code_simp

theorem date_condition_witness:
  "field filterF = DateAdded \<and> boundSet (startDate filterF) \<and> boundSet (endDate filterF)
   \<and> evaluateFilter_primary exampleAccount filterF
   \<and> the (startDate filterF) \<le> dateAdded exampleAccount
   \<and> dateAdded exampleAccount \<le> the (endDate filterF)"
proof -
  have h: "field filterF = DateAdded" "boundSet (startDate filterF)" "boundSet (endDate filterF)"
    by (simp_all add: filterF_def initialFilter_def boundSet_def)
  from date_condition [OF h(1), of exampleAccount] h filterF_eval show ?thesis by simp
qed

section \<open>Properties of the sort\<close>

lemma mset_insertBy: "mset (insertBy cmp x ys) = add_mset x (mset ys)"
  by (induction ys) simp_all

lemma mset_arraySort: "mset (arraySort cmp xs) = mset xs"
  unfolding arraySort_def by (induction xs) (simp_all add: mset_insertBy)

text \<open>
  C10. The list returned by \<open>sortAccountsByField\<close> is a permutation of its input: the same
  multiset of records, the same length, the same elements.
\<close>

theorem sort_is_permutation:
  "mset (sortAccountsByField localeCompare accounts fld) = mset accounts
   \<and> length (sortAccountsByField localeCompare accounts fld) = length accounts
   \<and> set (sortAccountsByField localeCompare accounts fld) = set accounts"
proof -
  have m: "mset (sortAccountsByField localeCompare accounts fld) = mset accounts"
    by (simp add: sortAccountsByField_def mset_arraySort)
  from m have "length (sortAccountsByField localeCompare accounts fld) = length accounts"
    by (rule mset_eq_length)
  moreover from m have "set (sortAccountsByField localeCompare accounts fld) = set accounts"
    by (rule mset_eq_setD)
  ultimately show ?thesis using m by simp
qed

text \<open>
  The sort puts a list in the order of any key that the comparator agrees with.
\<close>

lemma set_insertBy: "set (insertBy cmp x ys) = insert x (set ys)"
  by (induction ys) auto

lemma set_arraySort: "set (arraySort cmp xs) = set xs"
  unfolding arraySort_def by (induction xs) (simp_all add: set_insertBy)

lemma sorted_insertBy:
  fixes key :: "'a \<Rightarrow> 'k::linorder"
  assumes c: "\<And>u v. u \<in> A \<Longrightarrow> v \<in> A \<Longrightarrow> numGt (cmp u v) (Some 0) = (key v < key u)"
    and x: "x \<in> A" and ys: "set ys \<subseteq> A"
    and s: "sorted_wrt (\<lambda>u v. key u \<le> key v) ys"
  shows "sorted_wrt (\<lambda>u v. key u \<le> key v) (insertBy cmp x ys)"
  using ys s
proof (induction ys)
  case Nil
  then show ?case by simp
next
  case (Cons y ys)
  then have yA: "y \<in> A" and ysA: "set ys \<subseteq> A" by auto
  show ?case
  proof (cases "numGt (cmp x y) (Some 0)")
    case True
    then have "key y < key x" using c [OF x yA] by simp
    with Cons ysA True show ?thesis by (auto simp: set_insertBy)
  next
    case False
    then have "key x \<le> key y" using c [OF x yA] by simp
    with Cons False show ?thesis by fastforce
  qed
qed

lemma sorted_arraySort_aux:
  fixes key :: "'a \<Rightarrow> 'k::linorder"
  assumes c: "\<And>u v. u \<in> A \<Longrightarrow> v \<in> A \<Longrightarrow> numGt (cmp u v) (Some 0) = (key v < key u)"
  shows "set xs \<subseteq> A \<Longrightarrow> sorted_wrt (\<lambda>u v. key u \<le> key v) (arraySort cmp xs)"
proof (induction xs)
  case Nil
  then show ?case by (simp add: arraySort_def)
next
  case (Cons x xs)
  then have "sorted_wrt (\<lambda>u v. key u \<le> key v) (arraySort cmp xs)" by simp
  moreover have "set (arraySort cmp xs) \<subseteq> A" using Cons.prems by (simp add: set_arraySort)
  moreover have "x \<in> A" using Cons.prems by simp
  ultimately have "sorted_wrt (\<lambda>u v. key u \<le> key v) (insertBy cmp x (arraySort cmp xs))"
    using sorted_insertBy [of A cmp key] c by blast
  then show ?case by (simp add: arraySort_def)
qed

lemma sorted_arraySort:
  fixes key :: "'a \<Rightarrow> 'k::linorder"
  assumes "\<And>u v. u \<in> set xs \<Longrightarrow> v \<in> set xs \<Longrightarrow> numGt (cmp u v) (Some 0) = (key v < key u)"
  shows "sorted_wrt (\<lambda>u v. key u \<le> key v) (arraySort cmp xs)"
  using sorted_arraySort_aux [of "set xs" cmp key xs] assms by blast

lemma balance_comparator:
  "numGt (sortComparator lc Balance a b) (Some 0) = (balance a < balance b)"
  by (simp add: sortComparator_def)

lemma sorted_by_balance:
  "sorted_wrt (\<lambda>u v. balance u \<ge> balance v) (sortAccountsByField lc accounts Balance)"
proof -
  have "sorted_wrt (\<lambda>u v. - balance u \<le> - balance v)
          (arraySort (sortComparator lc Balance) accounts)"
    by (rule sorted_arraySort) (simp add: balance_comparator)
  then show ?thesis by (simp add: sortAccountsByField_def)
qed

lemma digit_not_space: "isDigit c \<Longrightarrow> \<not> isSpace c"
  by (auto simp: isDigit_def isSpace_def)

lemma trim_digits: "list_all isDigit s \<Longrightarrow> trim s = s"
proof -
  assume a: "list_all isDigit s"
  have d: "\<And>t. list_all isDigit t \<Longrightarrow> dropWhile isSpace t = t"
    by (case_tac t) (auto simp: digit_not_space)
  from a have "list_all isDigit (rev s)" by (simp add: list_all_iff)
  with a d show ?thesis by (simp add: trim_def)
qed

lemma Number_exactNumericString:
  assumes "exactNumericString s"
  shows "stringToNumber s = Some (of_nat (digitsValue s))"
proof -
  from assms have ne: "s \<noteq> []" and ds: "list_all isDigit s"
    by (simp_all add: exactNumericString_def digitsPattern_def)
  from ne ds have h: "isDigit (hd s)" by (cases s) simp_all
  then have hs: "hd s \<noteq> CHR ''-''" "hd s \<noteq> CHR ''+''" by (auto simp: isDigit_def)
  from ds have tw: "takeWhile isDigit s = s" and dw: "dropWhile isDigit s = []"
    by (simp_all add: list_all_iff)
  have "unsignedDecimal s = Some (of_nat (digitsValue s))"
    unfolding unsignedDecimal_def Let_def tw dw using ne by simp
  then show ?thesis
    unfolding stringToNumber_def Let_def trim_digits [OF ds] using ne hs by simp
qed

lemma accountNumber_comparator:
  assumes "exactNumericString (accountNumber a)" "exactNumericString (accountNumber b)"
  shows "numGt (sortComparator lc AccountNumber a b) (Some 0) =
         (digitsValue (accountNumber b) < digitsValue (accountNumber a))"
  using assms by (simp add: sortComparator_def Number_exactNumericString)

lemma sorted_by_accountNumber:
  assumes "\<forall>a \<in> set accounts. exactNumericString (accountNumber a)"
  shows "sorted_wrt (\<lambda>u v. digitsValue (accountNumber u) \<le> digitsValue (accountNumber v))
           (sortAccountsByField lc accounts AccountNumber)"
  unfolding sortAccountsByField_def
  by (rule sorted_arraySort) (use assms in \<open>simp add: accountNumber_comparator\<close>)

lemma threeBalances_sorted:
  "map balance (sortAccountsByField lc threeBalances Balance) = [5000, 1000, - 200]"
  by (simp add: sortAccountsByField_def arraySort_def threeBalances_def balance_comparator)

text \<open>
  C7. Sorting by the balance gives a list in descending order of balance: at every index
  the balance is at least the next one; the records with balances 5000, -200, 1000 come
  out as 5000, 1000, -200. Sorting by the account number is ascending in its numeric
  value, for account numbers that are strings of at most 15 digits.
\<close>

theorem balance_sort_descending:
  "(\<forall>i. Suc i < length (sortAccountsByField lc accounts Balance) \<longrightarrow>
        balance (sortAccountsByField lc accounts Balance ! i)
          \<ge> balance (sortAccountsByField lc accounts Balance ! Suc i))
   \<and> map balance (sortAccountsByField lc threeBalances Balance) = [5000, 1000, - 200]
   \<and> ((\<forall>a \<in> set accounts. exactNumericString (accountNumber a)) \<longrightarrow>
        (\<forall>i. Suc i < length (sortAccountsByField lc accounts AccountNumber) \<longrightarrow>
           digitsValue (accountNumber (sortAccountsByField lc accounts AccountNumber ! i))
             \<le> digitsValue (accountNumber (sortAccountsByField lc accounts AccountNumber ! Suc i))))"
proof (intro conjI allI impI)
  fix i
  assume "Suc i < length (sortAccountsByField lc accounts Balance)"
  then show "balance (sortAccountsByField lc accounts Balance ! i)
          \<ge> balance (sortAccountsByField lc accounts Balance ! Suc i)"
    using sorted_by_balance [of lc accounts] by (simp add: sorted_wrt_iff_nth_less)
next
  show "map balance (sortAccountsByField lc threeBalances Balance) = [5000, 1000, - 200]"
    by (rule threeBalances_sorted)
next
  fix i
  assume "\<forall>a \<in> set accounts. exactNumericString (accountNumber a)"
    and "Suc i < length (sortAccountsByField lc accounts AccountNumber)"
  then show "digitsValue (accountNumber (sortAccountsByField lc accounts AccountNumber ! i))
             \<le> digitsValue (accountNumber (sortAccountsByField lc accounts AccountNumber ! Suc i))"
    using sorted_by_accountNumber [of accounts lc] by (simp add: sorted_wrt_iff_nth_less)
qed

lemma twoAccountNumbers_exact: "\<forall>a \<in> set twoAccountNumbers. exactNumericString (accountNumber a)"
  by (simp add: twoAccountNumbers_def exactNumericString_def digitsPattern_def isDigit_def)

lemma twoAccountNumbers_sorted:
  "map accountNumber (sortAccountsByField codeUnitCompare twoAccountNumbers AccountNumber) = [''9'', ''10'']"
  by (simp add: sortAccountsByField_def arraySort_def twoAccountNumbers_def sortComparator_def
      stringToNumber_def trim_def isSpace_def unsignedDecimal_def isDigit_def digitsValue_def
      digitVal_def)

theorem balance_sort_descending_witness:
  "Suc 0 < length (sortAccountsByField codeUnitCompare threeBalances Balance)
   \<and> balance (sortAccountsByField codeUnitCompare threeBalances Balance ! 0)
        \<ge> balance (sortAccountsByField codeUnitCompare threeBalances Balance ! Suc 0)
   \<and> map balance (sortAccountsByField codeUnitCompare threeBalances Balance) = [5000, 1000, - 200]
   \<and> Suc 0 < length (sortAccountsByField codeUnitCompare twoAccountNumbers AccountNumber)
   \<and> map accountNumber (sortAccountsByField codeUnitCompare twoAccountNumbers AccountNumber) = [''9'', ''10'']
   \<and> digitsValue (accountNumber (sortAccountsByField codeUnitCompare twoAccountNumbers AccountNumber ! 0))
        \<le> digitsValue (accountNumber (sortAccountsByField codeUnitCompare twoAccountNumbers AccountNumber ! Suc 0))"
proof -
  have l3: "length (sortAccountsByField codeUnitCompare threeBalances Balance) = 3"
    using threeBalances_sorted [of codeUnitCompare] by (metis length_map length_Cons list.size(3) numeral_3_eq_3)
  have l2: "length (sortAccountsByField codeUnitCompare twoAccountNumbers AccountNumber) = 2"
    using twoAccountNumbers_sorted by (metis length_map length_Cons list.size(3) numeral_2_eq_2)
  from balance_sort_descending [of codeUnitCompare threeBalances]
  have b: "balance (sortAccountsByField codeUnitCompare threeBalances Balance ! 0)
        \<ge> balance (sortAccountsByField codeUnitCompare threeBalances Balance ! Suc 0)"
    using l3 by simp
  from balance_sort_descending [of codeUnitCompare twoAccountNumbers] twoAccountNumbers_exact
  have a: "digitsValue (accountNumber (sortAccountsByField codeUnitCompare twoAccountNumbers AccountNumber ! 0))
        \<le> digitsValue (accountNumber (sortAccountsByField codeUnitCompare twoAccountNumbers AccountNumber ! Suc 0))"
    using l2 by simp
  from a b l2 l3 threeBalances_sorted [of codeUnitCompare] twoAccountNumbers_sorted
  show ?thesis by simp
qed

text \<open>
  Sorting a sorted list again changes nothing, when no two elements compare greater than
  each other.
\<close>

lemma successively_insertBy:
  assumes asym: "\<And>u v. numGt (cmp u v) (Some 0) \<Longrightarrow> \<not> numGt (cmp v u) (Some 0)"
  shows "successively (\<lambda>u v. \<not> numGt (cmp u v) (Some 0)) ys \<Longrightarrow>
         successively (\<lambda>u v. \<not> numGt (cmp u v) (Some 0)) (insertBy cmp x ys)"
proof (induction ys)
  case Nil
  then show ?case by simp
next
  case (Cons y ys)
  show ?case
  proof (cases "numGt (cmp x y) (Some 0)")
    case False
    with Cons.prems show ?thesis by simp
  next
    case True
    then have yx: "\<not> numGt (cmp y x) (Some 0)" by (rule asym)
    from Cons.prems have "successively (\<lambda>u v. \<not> numGt (cmp u v) (Some 0)) ys"
      by (cases ys) simp_all
    then have ih: "successively (\<lambda>u v. \<not> numGt (cmp u v) (Some 0)) (insertBy cmp x ys)"
      by (rule Cons.IH)
    show ?thesis
    proof (cases ys)
      case Nil
      with True yx show ?thesis by simp
    next
      case (Cons z zs)
      with Cons.prems have yz: "\<not> numGt (cmp y z) (Some 0)" by simp
      from Cons have "hd (insertBy cmp x ys) = x \<or> hd (insertBy cmp x ys) = z" by simp
      with yx yz have "\<not> numGt (cmp y (hd (insertBy cmp x ys))) (Some 0)" by auto
      with ih True show ?thesis by (simp add: successively_Cons)
    qed
  qed
qed

lemma successively_arraySort:
  assumes "\<And>u v. numGt (cmp u v) (Some 0) \<Longrightarrow> \<not> numGt (cmp v u) (Some 0)"
  shows "successively (\<lambda>u v. \<not> numGt (cmp u v) (Some 0)) (arraySort cmp xs)"
  unfolding arraySort_def
  by (induction xs) (simp_all add: successively_insertBy [OF assms])

lemma arraySort_fixed:
  "successively (\<lambda>u v. \<not> numGt (cmp u v) (Some 0)) ys \<Longrightarrow> arraySort cmp ys = ys"
proof (induction ys)
  case Nil
  then show ?case by (simp add: arraySort_def)
next
  case (Cons y ys)
  from Cons.prems have "successively (\<lambda>u v. \<not> numGt (cmp u v) (Some 0)) ys"
    by (cases ys) simp_all
  then have "arraySort cmp ys = ys" by (rule Cons.IH)
  then have "arraySort cmp (y # ys) = insertBy cmp y ys" by (simp add: arraySort_def)
  with Cons.prems show ?case by (cases ys) simp_all
qed

lemma sortComparator_asym:
  assumes "\<And>s t. lc s t > 0 \<Longrightarrow> lc t s \<le> 0"
  shows "numGt (sortComparator lc fld a b) (Some 0) \<Longrightarrow> \<not> numGt (sortComparator lc fld b a) (Some 0)"
proof -
  have n: "\<And>p q. numGt (numSub p q) (Some 0) \<Longrightarrow> \<not> numGt (numSub q p) (Some 0)"
    by (case_tac p; case_tac q) simp_all
  assume g: "numGt (sortComparator lc fld a b) (Some 0)"
  show ?thesis
  proof (cases fld)
    case AccountNumber
    with g n show ?thesis by (simp add: sortComparator_def)
  next
    case PhoneNumber
    with g n show ?thesis by (simp add: sortComparator_def)
  next
    case Balance
    with g show ?thesis by (simp add: sortComparator_def)
  next
    case DateAdded
    with g show ?thesis by (simp add: sortComparator_def Let_def split: if_splits)
  next
    case CompanyName
    with g assms [of "companyName a" "companyName b"] show ?thesis by (simp add: sortComparator_def)
  next
    case ContactName
    with g assms [of "contactName a" "contactName b"] show ?thesis by (simp add: sortComparator_def)
  next
    case Email
    with g assms [of "email a" "email b"] show ?thesis by (simp add: sortComparator_def)
  qed (use g in \<open>simp_all add: sortComparator_def\<close>)
qed

lemma sortAccountsByField_again:
  assumes "\<And>s t. lc s t > 0 \<Longrightarrow> lc t s \<le> 0"
  shows "sortAccountsByField lc (sortAccountsByField lc accounts fld) fld =
         sortAccountsByField lc accounts fld"
  unfolding sortAccountsByField_def
  by (rule arraySort_fixed, rule successively_arraySort) (rule sortComparator_asym [OF assms])

text \<open>
  On the store, the call appends the sorted copy and returns its reference.
\<close>

lemma sortAccountsByField_store_eq:
  "sortAccountsByField_store lc h accounts fld =
     (h @ [sortAccountsByField lc (h ! accounts) fld], length h)"
  by (simp add: sortAccountsByField_store_def spreadCopy_def sortInPlace_def
      sortAccountsByField_def)

text \<open>
  C8. \<open>sortAccountsByField\<close> returns a new list and leaves its input unchanged: the
  reference returned is a new one, every array of the store keeps its contents, the input
  array among them, and the new array holds the sorted list. A second call with the same
  arguments returns a list with the same contents as the first. Sorting the returned list
  again by the same field gives it back, when the host's comparison never puts each of
  two strings after the other and, for the account number, the account numbers are
  strings of at most 15 digits.
\<close>

theorem sort_leaves_input_unchanged:
  fixes h :: store and lc :: "string \<Rightarrow> string \<Rightarrow> int" and accounts :: nat and fld :: account_field
  defines "call1 \<equiv> sortAccountsByField_store lc h accounts fld"
  defines "call2 \<equiv> sortAccountsByField_store lc (fst call1) accounts fld"
  assumes "accounts < length h"
  shows "snd call1 = length h
       \<and> snd call1 \<noteq> accounts
       \<and> length (fst call1) = Suc (length h)
       \<and> (\<forall>i < length h. fst call1 ! i = h ! i)
       \<and> fst call1 ! accounts = h ! accounts
       \<and> fst call1 ! snd call1 = sortAccountsByField lc (h ! accounts) fld
       \<and> fst call2 ! accounts = h ! accounts
       \<and> fst call2 ! snd call2 = fst call1 ! snd call1
       \<and> snd call2 \<noteq> snd call1
       \<and> ((\<forall>s t. lc s t > 0 \<longrightarrow> lc t s \<le> 0)
            \<and> (fld = AccountNumber \<longrightarrow>
                 (\<forall>a \<in> set (h ! accounts). exactNumericString (accountNumber a))) \<longrightarrow>
            sortAccountsByField lc (fst call1 ! snd call1) fld = fst call1 ! snd call1)"
proof -
  have c1: "call1 = (h @ [sortAccountsByField lc (h ! accounts) fld], length h)"
    unfolding call1_def by (rule sortAccountsByField_store_eq)
  have c2: "call2 =
      (fst call1 @ [sortAccountsByField lc (fst call1 ! accounts) fld], length (fst call1))"
    unfolding call2_def by (rule sortAccountsByField_store_eq)
  have again: "sortAccountsByField lc (fst call1 ! snd call1) fld = fst call1 ! snd call1"
    if "\<forall>s t. lc s t > 0 \<longrightarrow> lc t s \<le> 0"
    using sortAccountsByField_again [of lc "h ! accounts" fld] that by (simp add: c1)
  from assms(3) again show ?thesis by (simp add: c1 c2 nth_append)
qed

theorem sort_leaves_input_unchanged_witness:
  "(0::nat) < length [threeBalances]
   \<and> snd (sortAccountsByField_store codeUnitCompare [threeBalances] 0 Balance) = 1
   \<and> fst (sortAccountsByField_store codeUnitCompare [threeBalances] 0 Balance) ! 0 = threeBalances
   \<and> map balance (fst (sortAccountsByField_store codeUnitCompare [threeBalances] 0 Balance) ! 1)
       = [5000, 1000, - 200]
   \<and> sortAccountsByField codeUnitCompare
         (fst (sortAccountsByField_store codeUnitCompare [threeBalances] 0 Balance) ! 1) Balance
       = fst (sortAccountsByField_store codeUnitCompare [threeBalances] 0 Balance) ! 1"
proof -
  have h: "(0::nat) < length [threeBalances]" by simp
  have m: "map balance (sortAccountsByField codeUnitCompare threeBalances Balance) = [5000, 1000, - 200]"
    by (simp add: sortAccountsByField_def arraySort_def threeBalances_def balance_comparator)
  let ?call = "sortAccountsByField_store codeUnitCompare [threeBalances] 0 Balance"
  note f = sort_leaves_input_unchanged [OF h, of codeUnitCompare Balance]
  from f have "snd ?call = length [threeBalances]"
    by blast
  then have r: "snd ?call = 1"
    by simp
  from f have "fst ?call ! 0 = [threeBalances] ! 0"
    by blast
  then have i: "fst ?call ! 0 = threeBalances"
    by simp
  from f have "fst ?call ! snd ?call = sortAccountsByField codeUnitCompare ([threeBalances] ! 0) Balance"
    by blast
  with r have o: "fst ?call ! 1 = sortAccountsByField codeUnitCompare threeBalances Balance"
    by simp
  with m have b: "map balance (fst ?call ! 1) = [5000, 1000, - 200]"
    by simp
  have c: "\<forall>s t. codeUnitCompare s t > 0 \<longrightarrow> codeUnitCompare t s \<le> 0"
    by (simp add: codeUnitCompare_def)
  from f have "(\<forall>s t. codeUnitCompare s t > 0 \<longrightarrow> codeUnitCompare t s \<le> 0)
      \<and> (Balance = AccountNumber \<longrightarrow>
           (\<forall>a \<in> set ([threeBalances] ! 0). exactNumericString (accountNumber a))) \<longrightarrow>
      sortAccountsByField codeUnitCompare (fst ?call ! snd ?call) Balance = fst ?call ! snd ?call"
    by blast
  with c r have "sortAccountsByField codeUnitCompare (fst ?call ! 1) Balance = fst ?call ! 1"
    by simp
  with h r i b show ?thesis
    by simp
qed

section \<open>Validation of a balance operand\<close>

text \<open>
  The pattern of the balance check is the non-negative decimal number.
\<close>

lemma point_not_digit: "\<not> isDigit (CHR ''.'')"
  by (simp add: isDigit_def)

lemma balancePattern_iff: "balancePattern s = nonNegativeDecimal s"
proof
  assume b: "balancePattern s"
  let ?ip = "takeWhile isDigit s" and ?rest = "dropWhile isDigit s"
  have s: "s = ?ip @ ?rest" by simp
  have d: "list_all isDigit ?ip" by (auto simp: list_all_iff dest: set_takeWhileD)
  from b have ne: "?ip \<noteq> []" by (simp add: balancePattern_def Let_def)
  show "nonNegativeDecimal s"
  proof (cases "?rest = []")
    case True
    with s have "s = ?ip" by simp
    with ne d show ?thesis unfolding nonNegativeDecimal_def
      by (intro exI [of _ ?ip] exI [of _ "[]"]) simp
  next
    case False
    with b have h: "hd ?rest = CHR ''.''" and t: "tl ?rest \<noteq> []" and dt: "list_all isDigit (tl ?rest)"
      by (auto simp: balancePattern_def Let_def)
    from False h have "?rest = ''.'' @ tl ?rest" by (cases ?rest) simp_all
    with s have "s = ?ip @ ''.'' @ tl ?rest" by metis
    with ne d t dt show ?thesis unfolding nonNegativeDecimal_def
      by (intro exI [of _ ?ip] exI [of _ "tl ?rest"]) simp
  qed
next
  assume "nonNegativeDecimal s"
  then obtain ip fp where ne: "ip \<noteq> []" and d: "list_all isDigit ip" and df: "list_all isDigit fp"
    and c: "s = ip \<or> (fp \<noteq> [] \<and> s = ip @ ''.'' @ fp)"
    unfolding nonNegativeDecimal_def by blast
  from c show "balancePattern s"
  proof
    assume "s = ip"
    with d have tw: "takeWhile isDigit s = s" and dw: "dropWhile isDigit s = []"
      by (simp_all add: list_all_iff)
    show ?thesis
      unfolding balancePattern_def Let_def tw dw using ne \<open>s = ip\<close> by simp
  next
    assume a: "fp \<noteq> [] \<and> s = ip @ ''.'' @ fp"
    with d have tw: "takeWhile isDigit s = ip" and dw: "dropWhile isDigit s = ''.'' @ fp"
      by (simp_all add: list_all_iff takeWhile_append2 dropWhile_append2 point_not_digit)
    show ?thesis
      unfolding balancePattern_def Let_def tw dw using ne a df by simp
  qed
qed

lemma validateSearchInput_balance: "validateSearchInput Balance val = \<lparr>valid = True, error = None\<rparr>"
  by (simp add: validateSearchInput_def)

text \<open>
  C4, as stated, fails: \<open>validateSearchInput\<close> has no rule for the balance field, and
  accepts \<open>abc\<close> there, which is no decimal number, without an error message.
\<close>

theorem validateSearchInput_balance_counterexample:
  "''abc'' \<noteq> [] \<and> \<not> nonNegativeDecimal ''abc''
   \<and> valid (validateSearchInput Balance ''abc'')
   \<and> error (validateSearchInput Balance ''abc'') = None"
proof -
  have "\<not> balancePattern ''abc''" by (simp add: balancePattern_def isDigit_def)
  then show ?thesis by (simp add: balancePattern_iff validateSearchInput_def)
qed

text \<open>
  C4, amended. \<open>validateSearchInput\<close> on the balance field returns valid for every value.
  The balance is checked where an operand is entered, in \<open>addValueToFilter\<close> of the primary
  search page: for a filter on the balance whose trimmed input is not empty, the input is
  appended to the operands, and the filter's error cleared, exactly when it is a
  non-negative decimal number (digits, optionally a point and more digits, no sign);
  otherwise the filters are unchanged and the filter's error is
  \<open>Balance must be a valid number\<close>.
\<close>

theorem balance_operand_check:
  assumes f: "find (\<lambda>f. id_filter f = filterId) (advancedFilters st) = Some flt"
    and b: "field flt = Balance"
    and t: "trim (inputValue flt) \<noteq> []"
  shows "valid (validateSearchInput Balance val)
       \<and> (nonNegativeDecimal (trim (inputValue flt)) \<longrightarrow>
            filterErrors (addValueToFilter st filterId) filterId = None
            \<and> advancedFilters (addValueToFilter st filterId) =
                map (\<lambda>f. if id_filter f = filterId
                          then f\<lparr>values_filter := values_filter flt @ [trim (inputValue flt)],
                                 inputValue := []\<rparr>
                          else f) (advancedFilters st))
       \<and> (\<not> nonNegativeDecimal (trim (inputValue flt)) \<longrightarrow>
            filterErrors (addValueToFilter st filterId) filterId = Some ''Balance must be a valid number''
            \<and> advancedFilters (addValueToFilter st filterId) = advancedFilters st)"
  using f b t
  by (simp add: addValueToFilter_def Let_def balancePattern_iff validateSearchInput_balance
      setFilterError_def clearFilterError_def updateAdvancedFilter_def)

theorem balance_operand_check_witness:
  "filterErrors (addValueToFilter (pageWith (balanceFilter ''-5'')) ''1'') ''1''
     = Some ''Balance must be a valid number''
   \<and> map values_filter (advancedFilters (addValueToFilter (pageWith (balanceFilter ''-5'')) ''1'')) = [[]]
   \<and> filterErrors (addValueToFilter (pageWith (balanceFilter '' 12.50 '')) ''1'') ''1'' = None
   \<and> map values_filter (advancedFilters (addValueToFilter (pageWith (balanceFilter '' 12.50 '')) ''1''))
       = [[''12.50'']]"
proof -
  have f: "\<And>i. find (\<lambda>f. id_filter f = ''1'') (advancedFilters (pageWith (balanceFilter i)))
             = Some (balanceFilter i)"
    and b: "\<And>i. field (balanceFilter i) = Balance"
    and v: "\<And>i. values_filter (balanceFilter i) = []"
    and i: "\<And>i. id_filter (balanceFilter i) = ''1''"
    by (simp_all add: pageWith_def balanceFilter_def initialFilter_def)
  have t1: "trim (inputValue (balanceFilter ''-5'')) = ''-5''"
    and t2: "trim (inputValue (balanceFilter '' 12.50 '')) = ''12.50''"
    by (simp_all add: balanceFilter_def trim_def isSpace_def)
  have n1: "\<not> nonNegativeDecimal ''-5''" and n2: "nonNegativeDecimal ''12.50''"
    by (simp_all add: balancePattern_iff [symmetric] balancePattern_def isDigit_def)
  from balance_operand_check [OF f b, of "''-5''"] t1 n1
  have r: "filterErrors (addValueToFilter (pageWith (balanceFilter ''-5'')) ''1'') ''1''
             = Some ''Balance must be a valid number''"
    "advancedFilters (addValueToFilter (pageWith (balanceFilter ''-5'')) ''1'')
       = advancedFilters (pageWith (balanceFilter ''-5''))"
    by simp_all
  from balance_operand_check [OF f b, of "'' 12.50 ''"] t2 n2
  have a: "filterErrors (addValueToFilter (pageWith (balanceFilter '' 12.50 '')) ''1'') ''1'' = None"
    "advancedFilters (addValueToFilter (pageWith (balanceFilter '' 12.50 '')) ''1'')
       = map (\<lambda>f. if id_filter f = ''1''
                          then f\<lparr>values_filter := values_filter (balanceFilter '' 12.50 '') @ [''12.50''],
                                 inputValue := []\<rparr>
                          else f) (advancedFilters (pageWith (balanceFilter '' 12.50 '')))"
    by simp_all
  show ?thesis
    unfolding r a by (simp add: pageWith_def v i)
qed

section \<open>Properties of the closest matches\<close>

text \<open>
  C9. For the empty search term \<open>findClosestMatches\<close> returns the empty list, whatever the
  records and the field.
\<close>

theorem no_suggestions_for_empty_term: "findClosestMatches [] accounts fld = []"
  by (simp add: findClosestMatches_def)

text \<open>
  The loop over the ranked items keeps at most five of them, in their order, with distinct
  field values.
\<close>

lemma uniqueLoop_length:
  "length unique < 5 \<Longrightarrow> length (uniqueLoop xs seen unique) \<le> 5"
  by (induction xs seen unique rule: uniqueLoop.induct) (auto simp: Let_def)

lemma uniqueLoop_sorted_wrt:
  "sorted_wrt P (unique @ xs) \<Longrightarrow> sorted_wrt P (uniqueLoop xs seen unique)"
proof (induction xs seen unique rule: uniqueLoop.induct)
  case (1 seen unique)
  then show ?case by simp
next
  case (2 item rest seen unique)
  from "2.prems" have a: "sorted_wrt P ((unique @ [item]) @ rest)" by simp
  from "2.prems" have b: "sorted_wrt P (unique @ rest)" by (auto simp: sorted_wrt_append)
  from a have c: "sorted_wrt P (unique @ [item])" by (auto simp: sorted_wrt_append)
  from "2.IH" a b c show ?case by (simp add: Let_def)
qed

lemma uniqueLoop_set:
  "set (uniqueLoop xs seen unique) \<subseteq> set unique \<union> set xs"
  by (induction xs seen unique rule: uniqueLoop.induct) (auto simp: Let_def split: if_splits)

lemma uniqueLoop_distinct:
  "seen = fieldValue_of ` set unique \<Longrightarrow> distinct (map fieldValue_of unique) \<Longrightarrow>
   distinct (map fieldValue_of (uniqueLoop xs seen unique))"
proof (induction xs seen unique rule: uniqueLoop.induct)
  case (1 seen unique)
  then show ?case by simp
next
  case (2 item rest seen unique)
  show ?case
  proof (cases "fieldValue_of item \<in> seen")
    case True
    with 2 show ?thesis by simp
  next
    case False
    with "2.prems" have d: "distinct (map fieldValue_of (unique @ [item]))" by auto
    from "2.prems" have s: "insert (fieldValue_of item) seen = fieldValue_of ` set (unique @ [item])"
      by auto
    show ?thesis
    proof (cases "length (unique @ [item]) \<ge> 5")
      case True
      with False d show ?thesis by (simp add: Let_def)
    next
      case n: False
      from "2.IH"(1) [OF False refl refl n s d] False n show ?thesis by (simp add: Let_def)
    qed
  qed
qed

lemma score_comparator:
  "numGt (Some (score_of b - score_of a)) (Some 0) = (- score_of b < - score_of a)"
  by simp

lemma sortedItems_sorted:
  "sorted_wrt (\<lambda>u v. score_of u \<ge> score_of v)
     (filter (\<lambda>item. score_of item > 0) (arraySort (\<lambda>a b. Some (score_of b - score_of a)) scored))"
proof -
  have "sorted_wrt (\<lambda>u v. - score_of u \<le> - score_of v)
          (arraySort (\<lambda>a b. Some (score_of b - score_of a)) scored)"
    by (rule sorted_arraySort) (rule score_comparator)
  then show ?thesis by (simp add: sorted_wrt_filter)
qed

lemma uniqueLoop_firstOccurrences:
  "length unique < 5 \<Longrightarrow>
   uniqueLoop xs seen unique = take 5 (unique @ firstOccurrences seen xs)"
proof (induction xs seen unique rule: uniqueLoop.induct)
  case (1 seen unique)
  then show ?case by simp
next
  case (2 item rest seen unique)
  show ?case
  proof (cases "fieldValue_of item \<in> seen")
    case True
    with 2 show ?thesis by simp
  next
    case False
    show ?thesis
    proof (cases "length (unique @ [item]) \<ge> 5")
      case True
      with "2.prems" have "length unique = 4" by simp
      then have "take 5 (unique @ item # firstOccurrences (insert (fieldValue_of item) seen) rest)
                 = unique @ [item]"
        by simp
      with True False show ?thesis by (simp add: Let_def)
    next
      case n: False
      then have "length (unique @ [item]) < 5" by simp
      from "2.IH"(1) [OF False refl refl n this] False n show ?thesis by (simp add: Let_def)
    qed
  qed
qed

lemma findClosestMatches_ranked:
  "searchTerm \<noteq> [] \<Longrightarrow>
   findClosestMatches searchTerm accounts fld = rankedSuggestions searchTerm accounts fld"
  by (simp add: findClosestMatches_def rankedSuggestions_def Let_def uniqueLoop_firstOccurrences)

lemma findClosestMatches_unique:
  assumes "searchTerm \<noteq> []"
  obtains unique where
    "findClosestMatches searchTerm accounts fld = map account_of unique"
    "length unique \<le> 5"
    "distinct (map fieldValue_of unique)"
    "sorted_wrt (\<lambda>u v. score_of u \<ge> score_of v) unique"
    "\<forall>item \<in> set unique. score_of item > 0 \<and> item = scoreAccount searchTerm fld (account_of item)
       \<and> account_of item \<in> set accounts"
proof -
  let ?scored = "map (scoreAccount searchTerm fld) accounts"
  let ?items = "filter (\<lambda>item. score_of item > 0)
                  (arraySort (\<lambda>a b. Some (score_of b - score_of a)) ?scored)"
  let ?unique = "uniqueLoop ?items {} []"
  have r: "findClosestMatches searchTerm accounts fld = map account_of ?unique"
    using assms by (simp add: findClosestMatches_def Let_def)
  have l: "length ?unique \<le> 5" by (rule uniqueLoop_length) simp
  have d: "distinct (map fieldValue_of ?unique)" by (rule uniqueLoop_distinct) simp_all
  have s: "sorted_wrt (\<lambda>u v. score_of u \<ge> score_of v) ?unique"
    by (rule uniqueLoop_sorted_wrt) (simp add: sortedItems_sorted)
  have "set ?unique \<subseteq> set ?items" using uniqueLoop_set [of ?items "{}" "[]"] by simp
  moreover have "\<forall>item \<in> set ?items. score_of item > 0 \<and> item = scoreAccount searchTerm fld (account_of item)
       \<and> account_of item \<in> set accounts"
    by (auto simp: set_arraySort scoreAccount_def Let_def)
  ultimately have c: "\<forall>item \<in> set ?unique. score_of item > 0 \<and> item = scoreAccount searchTerm fld (account_of item)
       \<and> account_of item \<in> set accounts"
    by blast
  from r l d s c show thesis by (rule that)
qed

text \<open>
  C5, amended. The list returned by \<open>findClosestMatches\<close> has at most 5 entries, all drawn
  from the records given, each with a score above 0, in descending order of score, and no
  two of them have the same lower-cased field value. The field values are not trimmed.
  For a search term that is not empty the list is the ranking of the specification, with
  the lower-cased field value as the key.
\<close>

theorem suggestions_few_positive_distinct:
  "length (findClosestMatches searchTerm accounts fld) \<le> 5
   \<and> (\<forall>a \<in> set (findClosestMatches searchTerm accounts fld). accountScore searchTerm fld a > 0)
   \<and> distinct (map (loweredKey fld) (findClosestMatches searchTerm accounts fld))
   \<and> sorted_wrt (\<lambda>a b. accountScore searchTerm fld a \<ge> accountScore searchTerm fld b)
        (findClosestMatches searchTerm accounts fld)
   \<and> set (findClosestMatches searchTerm accounts fld) \<subseteq> set accounts
   \<and> (searchTerm \<noteq> [] \<longrightarrow>
        findClosestMatches searchTerm accounts fld = rankedSuggestions searchTerm accounts fld)"
proof (cases "searchTerm = []")
  case True
  then show ?thesis by (simp add: findClosestMatches_def)
next
  case False
  then obtain unique where
    r: "findClosestMatches searchTerm accounts fld = map account_of unique"
    and l: "length unique \<le> 5"
    and d: "distinct (map fieldValue_of unique)"
    and s: "sorted_wrt (\<lambda>u v. score_of u \<ge> score_of v) unique"
    and c: "\<forall>item \<in> set unique. score_of item > 0 \<and> item = scoreAccount searchTerm fld (account_of item)
       \<and> account_of item \<in> set accounts"
    by (rule findClosestMatches_unique)
  have sc: "\<And>item. item \<in> set unique \<Longrightarrow> accountScore searchTerm fld (account_of item) = score_of item"
    using c by (simp add: accountScore_def)
  have fv: "\<And>item. item \<in> set unique \<Longrightarrow> loweredKey fld (account_of item) = fieldValue_of item"
  proof -
    fix item assume "item \<in> set unique"
    with c have "item = scoreAccount searchTerm fld (account_of item)" by blast
    then have "fieldValue_of item = fieldValue_of (scoreAccount searchTerm fld (account_of item))"
      by simp
    then show "loweredKey fld (account_of item) = fieldValue_of item"
      by (simp add: scoreAccount_def Let_def loweredKey_def)
  qed
  have 1: "length (findClosestMatches searchTerm accounts fld) \<le> 5" using r l by simp
  have 2: "\<forall>a \<in> set (findClosestMatches searchTerm accounts fld). accountScore searchTerm fld a > 0"
    using r c sc by auto
  have "map (loweredKey fld) (map account_of unique) = map fieldValue_of unique"
    using fv by simp
  with d have "distinct (map (loweredKey fld) (map account_of unique))" by (simp only:)
  with r have 3: "distinct (map (loweredKey fld) (findClosestMatches searchTerm accounts fld))"
    by simp
  have "sorted_wrt (\<lambda>u v. accountScore searchTerm fld (account_of u)
                        \<ge> accountScore searchTerm fld (account_of v)) unique"
    using s sc by (auto intro: sorted_wrt_mono_rel [rotated])
  with r have 4: "sorted_wrt (\<lambda>a b. accountScore searchTerm fld a \<ge> accountScore searchTerm fld b)
        (findClosestMatches searchTerm accounts fld)"
    by (simp add: sorted_wrt_map)
  have 5: "set (findClosestMatches searchTerm accounts fld) \<subseteq> set accounts"
    using r c by auto
  from 1 2 3 4 5 findClosestMatches_ranked [OF False] show ?thesis by simp
qed

lemma spaced_scores:
  "computeScore ''acme'' ''acme'' = 2130" "computeScore ''acme '' ''acme'' = 1129"
  by (simp_all add: computeScore_def Let_def wordBonus_def isSpace_def)

lemma spaced_lower:
  "toLowerCase ''Acme'' = ''acme''" "toLowerCase ''Acme '' = ''acme ''" "toLowerCase ''acme'' = ''acme''"
  by (simp_all add: toLowerCase_def lowerChar_def)

lemma spaced_result: "findClosestMatches ''acme'' spacedAccounts CompanyName = spacedAccounts"
  by (simp add: findClosestMatches_def Let_def spacedAccounts_def scoreAccount_def spaced_lower
      spaced_scores arraySort_def exampleAccount_def)

text \<open>
  C5, as stated, fails: the field values are lower-cased but not trimmed, so for the search
  term \<open>acme\<close> the companies \<open>Acme\<close> and \<open>Acme\<close> followed by a space are both suggested,
  and they are equal after case-folding and trimming.
\<close>

theorem suggestions_trimmed_duplicates_counterexample:
  "\<not> distinct (map (trimmedKey CompanyName) (findClosestMatches ''acme'' spacedAccounts CompanyName))"
  by (simp add: spaced_result) (simp add: spacedAccounts_def trimmedKey_def spaced_lower trim_def isSpace_def)

theorem suggestions_few_positive_distinct_witness:
  "findClosestMatches ''acme'' spacedAccounts CompanyName = spacedAccounts
   \<and> rankedSuggestions ''acme'' spacedAccounts CompanyName = spacedAccounts
   \<and> accountScore ''acme'' CompanyName (spacedAccounts ! 0) > 0
   \<and> accountScore ''acme'' CompanyName (spacedAccounts ! 1) > 0
   \<and> loweredKey CompanyName (spacedAccounts ! 0) \<noteq> loweredKey CompanyName (spacedAccounts ! 1)"
proof -
  from suggestions_few_positive_distinct [of "''acme''" spacedAccounts CompanyName]
  have p: "\<forall>a \<in> set spacedAccounts. accountScore ''acme'' CompanyName a > 0"
    and d: "distinct (map (loweredKey CompanyName) spacedAccounts)"
    by (simp_all add: spaced_result)
  have m: "spacedAccounts ! 0 \<in> set spacedAccounts" "spacedAccounts ! 1 \<in> set spacedAccounts"
    by (simp_all add: spacedAccounts_def)
  from d have "loweredKey CompanyName (spacedAccounts ! 0) \<noteq> loweredKey CompanyName (spacedAccounts ! 1)"
    by (simp add: spacedAccounts_def)
  moreover from suggestions_few_positive_distinct [of "''acme''" spacedAccounts CompanyName]
  have "rankedSuggestions ''acme'' spacedAccounts CompanyName = spacedAccounts"
    by (simp add: spaced_result)
  ultimately show ?thesis using p m spaced_result by blast
qed

end
